theory Spec2Isabelle
  imports Complex_Main "HOL-Library.Char_ord" "HOL-Library.List_Lexorder"
begin

section \<open>Offline checkout queue of the service worker (public/sw.js)\<close>

subsection \<open>Data\<close>

text \<open>
  A checkout payload is the JSON object the page posts to the worker. Only its \<open>id\<close>
  is read by the worker; the other fields (total, paymentMethod, items, createdAt, source)
  are carried along unread and are kept as one opaque component.
  The field is called \<open>payload_id\<close> because \<open>id\<close> is the identity function of HOL.
\<close>

record 'a CheckoutPayload =
  payload_id :: string
  details :: 'a

text \<open>
  \<open>enqueueCheckout\<close> stores \<open>{ id: payload.id, payload, queuedAt: Date.now() }\<close>.
  Times are milliseconds since the epoch, as \<open>Date.now()\<close> returns them.
\<close>

record 'a QueueItem =
  item_id :: string
  payload :: "'a CheckoutPayload"
  queuedAt :: int

text \<open>
  The object store \<open>checkoutQueue\<close> is created with \<open>keyPath: 'id'\<close> and no index.
  An IndexedDB object store holds at most one record per key and keeps its records in
  ascending key order; \<open>put\<close> replaces the record that has the key of the new one,
  \<open>delete\<close> removes the record with the key, \<open>getAll()\<close> returns every record in
  ascending key order. The store is therefore a list of items ascending in \<open>item_id\<close>;
  string keys are compared lexicographically, character by character.
  Each helper of the source runs one transaction (\<open>withStore\<close>); the transactions are
  taken to commit, and a payload always carries an id that is a valid key.
\<close>

type_synonym 'a checkoutQueue = "'a QueueItem list"

fun store_put :: "'a QueueItem \<Rightarrow> 'a checkoutQueue \<Rightarrow> 'a checkoutQueue" where
  "store_put x [] = [x]"
| "store_put x (y # ys) =
     (if item_id x < item_id y then x # y # ys
      else if item_id x = item_id y then x # ys
      else y # store_put x ys)"

definition store_delete :: "string \<Rightarrow> 'a checkoutQueue \<Rightarrow> 'a checkoutQueue" where
  "store_delete k q = filter (\<lambda>y. item_id y \<noteq> k) q"

definition store_getAll :: "'a checkoutQueue \<Rightarrow> 'a QueueItem list" where
  "store_getAll q = q"

text \<open>The invariant of an object store keyed by \<open>id\<close>: strictly ascending keys.\<close>

definition keyed :: "'a checkoutQueue \<Rightarrow> bool" where
  "keyed q = sorted_wrt (<) (map item_id q)"

subsection \<open>The three queue helpers\<close>

definition enqueueCheckout :: "'a CheckoutPayload \<Rightarrow> int \<Rightarrow> 'a checkoutQueue \<Rightarrow> 'a checkoutQueue" where
  "enqueueCheckout p now q =
     store_put \<lparr>item_id = payload_id p, payload = p, queuedAt = now\<rparr> q"

definition getAllQueuedCheckouts :: "'a checkoutQueue \<Rightarrow> 'a QueueItem list" where
  "getAllQueuedCheckouts q = store_getAll q"

definition deleteQueuedCheckout :: "string \<Rightarrow> 'a checkoutQueue \<Rightarrow> 'a checkoutQueue" where
  "deleteQueuedCheckout k q = store_delete k q"

subsection \<open>Messages, network and worker state\<close>

datatype 'a message =
    CHECKOUT_SYNC_PENDING nat
  | CHECKOUT_SYNC_COMPLETE bool "'a CheckoutPayload" "string option"

text \<open>
  A message goes to every window client (\<open>broadcastMessage\<close>) or to the one client
  that sent the request (\<open>client?.postMessage\<close>).
\<close>

datatype target = AllWindows | Client string

text \<open>
  The outcome of \<open>fetch\<close>: a response with its status, or a rejected promise.
  \<open>response.ok\<close> is true for the statuses 200 to 299.
\<close>

datatype response = HTTP nat | NetworkError

fun response_ok :: "response \<Rightarrow> bool" where
  "response_ok (HTTP s) = (200 \<le> s \<and> s \<le> 299)"
| "response_ok NetworkError = False"

text \<open>
  What one pass reads from outside: the value of \<open>Date.now()\<close> when the loop body
  starts on an item, and the outcome of the POST made for it. A pass looks at each item
  of its snapshot once, so both are given per item.
\<close>

record 'a env =
  clock :: "'a QueueItem \<Rightarrow> int"
  fetch_orders :: "'a QueueItem \<Rightarrow> response"

text \<open>
  The worker's state: the object store, the messages posted so far (oldest first) and
  the bodies of the POST requests made to \<open>/orders\<close> so far (oldest first).
\<close>

record 'a sw =
  store :: "'a checkoutQueue"
  sent :: "(target \<times> 'a message) list"
  posted :: "'a CheckoutPayload list"

definition broadcastMessage :: "'a message \<Rightarrow> 'a sw \<Rightarrow> 'a sw" where
  "broadcastMessage m st = st\<lparr>sent := sent st @ [(AllWindows, m)]\<rparr>"

text \<open>
  \<open>sendQueueStatus(clientId)\<close> reads the queue again and posts its length, to the client
  of that id when an id is given (\<open>if (clientId)\<close>: the empty string counts as none), to
  every window otherwise. An entry for \<open>Client c\<close> in \<open>sent\<close> is the call
  \<open>client?.postMessage\<close>, which reaches the client if it still exists.
\<close>

definition sendQueueStatus :: "string option \<Rightarrow> 'a sw \<Rightarrow> 'a sw" where
  "sendQueueStatus clientId st =
     (let queue = getAllQueuedCheckouts (store st) in
      case clientId of
        Some c \<Rightarrow>
          if c = [] then broadcastMessage (CHECKOUT_SYNC_PENDING (length queue)) st
          else st\<lparr>sent := sent st @ [(Client c, CHECKOUT_SYNC_PENDING (length queue))]\<rparr>
      | None \<Rightarrow> broadcastMessage (CHECKOUT_SYNC_PENDING (length queue)) st)"

subsection \<open>The replay pass\<close>

text \<open>
  \<open>ageMinutes = (Date.now() - item.queuedAt) / (1000 * 60)\<close>, a division of numbers;
  the item is expired when \<open>ageMinutes > 72 * 60\<close>. The times are whole milliseconds,
  and for such values the comparison made on the rounded quotient is the one made on the
  exact quotient: 4320 is the exact quotient of 259200000, and the quotient of 259200001
  exceeds it by far more than the rounding.
\<close>

definition ageMinutes :: "int \<Rightarrow> 'a QueueItem \<Rightarrow> real" where
  "ageMinutes now item = real_of_int (now - queuedAt item) / (1000 * 60)"

definition expired :: "'a env \<Rightarrow> 'a QueueItem \<Rightarrow> bool" where
  "expired e item = (ageMinutes (clock e item) item > 72 * 60)"

text \<open>
  The \<open>for\<close> loop over the snapshot. An expired item is deleted and reported, and the
  loop goes on (\<open>continue\<close>). Otherwise the payload is posted; a response that is ok
  deletes and reports the item, anything else (a rejected fetch, or the error thrown on
  \<open>!response.ok\<close>) is caught and ends the loop (\<open>break\<close>).
\<close>

fun replay_loop :: "'a env \<Rightarrow> 'a QueueItem list \<Rightarrow> 'a sw \<Rightarrow> 'a sw" where
  "replay_loop e [] st = st"
| "replay_loop e (item # rest) st =
     (if expired e item then
        replay_loop e rest
          (broadcastMessage (CHECKOUT_SYNC_COMPLETE False (payload item) (Some ''expired''))
            (st\<lparr>store := deleteQueuedCheckout (item_id item) (store st)\<rparr>))
      else
        let st1 = st\<lparr>posted := posted st @ [payload item]\<rparr> in
        if response_ok (fetch_orders e item) then
          replay_loop e rest
            (broadcastMessage (CHECKOUT_SYNC_COMPLETE True (payload item) None)
              (st1\<lparr>store := deleteQueuedCheckout (item_id item) (store st1)\<rparr>))
        else st1)"

definition processCheckoutQueue :: "'a env \<Rightarrow> 'a sw \<Rightarrow> 'a sw" where
  "processCheckoutQueue e st =
     (let queue = getAllQueuedCheckouts (store st) in
      if length queue = 0 then broadcastMessage (CHECKOUT_SYNC_PENDING 0) st
      else sendQueueStatus None (replay_loop e queue st))"

subsection \<open>Notions used to state the properties of a pass\<close>

text \<open>
  An item passes when the loop goes on after it: it is expired, or its POST is answered ok.
  \<open>completion\<close> is the event the loop sends for an item that passes.
\<close>

definition passes :: "'a env \<Rightarrow> 'a QueueItem \<Rightarrow> bool" where
  "passes e item = (expired e item \<or> response_ok (fetch_orders e item))"

definition completion :: "'a env \<Rightarrow> 'a QueueItem \<Rightarrow> target \<times> 'a message" where
  "completion e item =
     (if expired e item
      then (AllWindows, CHECKOUT_SYNC_COMPLETE False (payload item) (Some ''expired''))
      else (AllWindows, CHECKOUT_SYNC_COMPLETE True (payload item) None))"

text \<open>
  The stores that exist: those reached from the empty store by the two writing helpers.
\<close>

datatype 'a store_op = Enqueue "'a CheckoutPayload" int | Delete string

fun apply_op :: "'a store_op \<Rightarrow> 'a checkoutQueue \<Rightarrow> 'a checkoutQueue" where
  "apply_op (Enqueue p now) q = enqueueCheckout p now q"
| "apply_op (Delete k) q = deleteQueuedCheckout k q"

definition run_ops :: "'a store_op list \<Rightarrow> 'a checkoutQueue" where
  "run_ops ops = fold apply_op ops []"

subsection \<open>Concrete queues and networks\<close>

definition order_A :: "nat CheckoutPayload" where
  "order_A = \<lparr>payload_id = ''A'', details = 1\<rparr>"

definition order_B :: "nat CheckoutPayload" where
  "order_B = \<lparr>payload_id = ''B'', details = 2\<rparr>"

definition order_C :: "nat CheckoutPayload" where
  "order_C = \<lparr>payload_id = ''C'', details = 3\<rparr>"



definition all_ok :: "nat env" where
  "all_ok = \<lparr>clock = (\<lambda>item. 1000), fetch_orders = (\<lambda>item. HTTP 200)\<rparr>"

definition b_then_a :: "nat checkoutQueue" where
  "b_then_a = run_ops [Enqueue order_B 1, Enqueue order_A 2]"

definition abc_ops :: "nat store_op list" where
  "abc_ops = [Enqueue order_A 10, Enqueue order_B 20, Enqueue order_C 30]"

definition late_state :: "nat sw" where
  "late_state = \<lparr>store = run_ops [Enqueue order_B 0, Enqueue order_A 262800000],
                  sent = [], posted = []\<rparr>"

definition offline_later :: "nat env" where
  "offline_later = \<lparr>clock = (\<lambda>item. 262860000), fetch_orders = (\<lambda>item. NetworkError)\<rparr>"

definition stale_state :: "nat sw" where
  "stale_state = \<lparr>store = run_ops [Enqueue order_A 0, Enqueue order_B 262800000],
                   sent = [], posted = []\<rparr>"

section \<open>The listeners of the worker and passes in progress\<close>

text \<open>
  \<open>processCheckoutQueue\<close> is an \<open>async\<close> function: a call runs until its first
  \<open>await\<close> and goes on when the awaited promise settles; in between the worker handles
  other events. A pass in progress is therefore kept as the place where it waits:
  for the snapshot (\<open>await getAllQueuedCheckouts()\<close>), for the answer to the POST made
  for an item (\<open>await fetch\<close>), with the items of its snapshot still to come, or for the
  final status (\<open>await sendQueueStatus()\<close>). The awaits on the store and on the clients
  inside one turn of the loop are taken in one step with what precedes them, which leaves
  out interleavings and adds none.
\<close>

datatype 'a pass =
    AwaitSnapshot
  | AwaitFetch "'a QueueItem" "'a QueueItem list"
  | AwaitStatus
  | Done

text \<open>The loop from its head up to the next \<open>fetch\<close>, or to its end.\<close>

fun loop_until_fetch :: "'a env \<Rightarrow> 'a QueueItem list \<Rightarrow> 'a sw \<Rightarrow> 'a pass \<times> 'a sw" where
  "loop_until_fetch e [] st = (AwaitStatus, st)"
| "loop_until_fetch e (item # rest) st =
     (if expired e item then
        loop_until_fetch e rest
          (broadcastMessage (CHECKOUT_SYNC_COMPLETE False (payload item) (Some ''expired''))
            (st\<lparr>store := deleteQueuedCheckout (item_id item) (store st)\<rparr>))
      else (AwaitFetch item rest, st\<lparr>posted := posted st @ [payload item]\<rparr>))"

text \<open>One pass goes on from where it waits to its next wait.\<close>

fun resume :: "'a env \<Rightarrow> 'a pass \<Rightarrow> 'a sw \<Rightarrow> 'a pass \<times> 'a sw" where
  "resume e AwaitSnapshot st =
     (let queue = getAllQueuedCheckouts (store st) in
      if length queue = 0 then (Done, broadcastMessage (CHECKOUT_SYNC_PENDING 0) st)
      else loop_until_fetch e queue st)"
| "resume e (AwaitFetch item rest) st =
     (if response_ok (fetch_orders e item) then
        loop_until_fetch e rest
          (broadcastMessage (CHECKOUT_SYNC_COMPLETE True (payload item) None)
            (st\<lparr>store := deleteQueuedCheckout (item_id item) (store st)\<rparr>))
      else (AwaitStatus, st))"
| "resume e AwaitStatus st = (Done, sendQueueStatus None st)"
| "resume e Done st = (Done, st)"

text \<open>
  The worker: its state and the passes started so far, each where it waits.
\<close>

record 'a worker =
  state :: "'a sw"
  inflight :: "'a pass list"

text \<open>
  What can happen to the worker: a message from a client (with the id of its source and
  the value of \<open>Date.now()\<close> at that moment), a \<open>sync\<close> event with its tag, or the
  promise awaited by the \<open>n\<close>-th pass settling.
\<close>

datatype 'a client_message =
    QUEUE_CHECKOUT "'a CheckoutPayload"
  | CHECKOUT_SYNC_STATUS_REQUEST
  | TRIGGER_CHECKOUT_SYNC
  | Other

datatype 'a occurrence =
    Message int "string option" "'a client_message"
  | Sync string
  | Settle nat

text \<open>A call of \<open>processCheckoutQueue()\<close>: the pass exists from now on.\<close>

definition start_pass :: "'a worker \<Rightarrow> 'a worker" where
  "start_pass w = w\<lparr>inflight := inflight w @ [AwaitSnapshot]\<rparr>"

text \<open>The \<open>message\<close> listener and the \<open>sync\<close> listener.\<close>

fun on_message :: "int \<Rightarrow> string option \<Rightarrow> 'a client_message \<Rightarrow> 'a worker \<Rightarrow> 'a worker" where
  "on_message now source (QUEUE_CHECKOUT p) w =
     w\<lparr>state := sendQueueStatus source ((state w)\<lparr>store := enqueueCheckout p now (store (state w))\<rparr>)\<rparr>"
| "on_message now source CHECKOUT_SYNC_STATUS_REQUEST w =
     w\<lparr>state := sendQueueStatus source (state w)\<rparr>"
| "on_message now source TRIGGER_CHECKOUT_SYNC w = start_pass w"
| "on_message now source Other w = w"

definition on_sync :: "string \<Rightarrow> 'a worker \<Rightarrow> 'a worker" where
  "on_sync tag w = (if tag = ''checkout-sync'' then start_pass w else w)"

definition settle :: "'a env \<Rightarrow> nat \<Rightarrow> 'a worker \<Rightarrow> 'a worker" where
  "settle e n w =
     (if n < length (inflight w) then
        (case resume e (inflight w ! n) (state w) of
           (p, st) \<Rightarrow> w\<lparr>state := st, inflight := (inflight w)[n := p]\<rparr>)
      else w)"

fun occur :: "'a env \<Rightarrow> 'a occurrence \<Rightarrow> 'a worker \<Rightarrow> 'a worker" where
  "occur e (Message now source m) w = on_message now source m w"
| "occur e (Sync tag) w = on_sync tag w"
| "occur e (Settle n) w = settle e n w"

definition run :: "'a env \<Rightarrow> 'a occurrence list \<Rightarrow> 'a worker \<Rightarrow> 'a worker" where
  "run e occs w = fold (occur e) occs w"

text \<open>The number of passes in progress.\<close>

definition in_progress :: "'a worker \<Rightarrow> nat" where
  "in_progress w = length (filter (\<lambda>p. p \<noteq> Done) (inflight w))"

definition idle :: "'a sw \<Rightarrow> 'a worker" where
  "idle st = \<lparr>state = st, inflight = []\<rparr>"

text \<open>
  A worker with the one order A queued, and two clients that each ask for a sync.
\<close>

definition one_order :: "nat worker" where
  "one_order = idle \<lparr>store = run_ops [Enqueue order_A 10], sent = [], posted = []\<rparr>"

definition two_triggers :: "nat occurrence list" where
  "two_triggers = [Message 500 (Some ''tab-1'') TRIGGER_CHECKOUT_SYNC,
                   Message 501 (Some ''tab-2'') TRIGGER_CHECKOUT_SYNC]"

section \<open>Audience filter of the notification server\<close>

subsection \<open>Subscriptions and preferences\<close>

text \<open>
  The categories are the four flags of \<open>NotificationPreferences\<close> (types.ts); the
  constructors are capitalised to keep them apart from the record fields of the same names.
\<close>

datatype NotificationCategory = FlashSales | NewArrivals | PriceDrops | BackInStock

text \<open>
  The fields \<open>start\<close> and \<open>end\<close> of the quiet-hours window are called
  \<open>quiet_start\<close> and \<open>quiet_end\<close> here (\<open>end\<close> is a keyword).
\<close>

record QuietHoursPreference =
  enabled :: bool
  quiet_start :: string
  quiet_end :: string
  timezone :: string

text \<open>
  \<open>mutedUntil\<close> is an ISO timestamp or null in the source and is read through
  \<open>new Date(...).getTime()\<close>; here it is the instant it denotes, in milliseconds.
  \<open>None\<close> stands for null, for the empty string and for a string that \<open>Date\<close>
  cannot read: on each of them \<open>isTemporarilyMuted\<close> answers false.
\<close>

record NotificationPreferences =
  flashSales :: bool
  newArrivals :: bool
  priceDrops :: bool
  backInStock :: bool
  quietHours :: "QuietHoursPreference option"
  mutedUntil :: "int option"

text \<open>\<open>preferences[category]\<close>\<close>

fun pref_of :: "NotificationPreferences \<Rightarrow> NotificationCategory \<Rightarrow> bool" where
  "pref_of p FlashSales = flashSales p"
| "pref_of p NewArrivals = newArrivals p"
| "pref_of p PriceDrops = priceDrops p"
| "pref_of p BackInStock = backInStock p"

text \<open>
  A stored subscription. \<open>keys\<close> is the crypto material handed to the push library
  unread. \<open>expirationTime\<close> is a number of milliseconds or null.
\<close>

record Subscription =
  endpoint :: string
  keys :: string
  expirationTime :: "int option"
  preferences :: "NotificationPreferences option"

subsection \<open>Quiet hours\<close>

text \<open>
  \<open>minutesFromHHMM\<close>: a value that is empty or does not match \<open>/^\d{2}:\d{2}$/\<close>
  gives null; otherwise the two numbers are read and \<open>hours * 60 + minutes\<close> returned.
  Nothing bounds the numbers: \<open>99:99\<close> is read as 6039.
\<close>

definition is_digit :: "char \<Rightarrow> bool" where
  "is_digit c = (CHR ''0'' \<le> c \<and> c \<le> CHR ''9'')"

definition digit_value :: "char \<Rightarrow> nat" where
  "digit_value c = of_char c - of_char CHR ''0''"

definition two_digits :: "char \<Rightarrow> char \<Rightarrow> nat" where
  "two_digits a b = digit_value a * 10 + digit_value b"

fun minutesFromHHMM :: "string \<Rightarrow> nat option" where
  "minutesFromHHMM [h1, h2, c, m1, m2] =
     (if is_digit h1 \<and> is_digit h2 \<and> c = CHR '':'' \<and> is_digit m1 \<and> is_digit m2
      then Some (two_digits h1 h2 * 60 + two_digits m1 m2)
      else None)"
| "minutesFromHHMM v = None"

text \<open>
  The formatter \<open>Intl.DateTimeFormat("en-GB", {hour, minute, hour12: false, timeZone})\<close>
  belongs to the platform. It is a parameter: \<open>wall tz now\<close> is the pair of numbers
  \<open>hh\<close> and \<open>mm\<close> it prints for the instant \<open>now\<close> in the time zone \<open>tz\<close>.
  The stored time zones are taken to be names the formatter knows, as the one the client
  stores (\<open>resolvedOptions().timeZone\<close>) is.
\<close>

type_synonym wall_clock = "string \<Rightarrow> int \<Rightarrow> nat \<times> nat"

definition currentMinutes :: "wall_clock \<Rightarrow> int \<Rightarrow> QuietHoursPreference \<Rightarrow> nat" where
  "currentMinutes wall now quiet =
     (case wall (if timezone quiet = [] then ''UTC'' else timezone quiet) now of
        (hh, mm) \<Rightarrow> hh * 60 + mm)"

definition isWithinQuietHours :: "wall_clock \<Rightarrow> int \<Rightarrow> NotificationPreferences \<Rightarrow> bool" where
  "isWithinQuietHours wall now prefs =
     (case quietHours prefs of
        None \<Rightarrow> False
      | Some quiet \<Rightarrow>
          if \<not> enabled quiet then False
          else
            (case minutesFromHHMM (quiet_start quiet) of
               None \<Rightarrow> False
             | Some start \<Rightarrow>
                 (case minutesFromHHMM (quiet_end quiet) of
                    None \<Rightarrow> False
                  | Some end' \<Rightarrow>
                      if start \<le> end'
                      then currentMinutes wall now quiet \<ge> start \<and> currentMinutes wall now quiet < end'
                      else currentMinutes wall now quiet \<ge> start \<or> currentMinutes wall now quiet < end')))"

subsection \<open>Mute and the filter\<close>

definition isTemporarilyMuted :: "int \<Rightarrow> NotificationPreferences \<Rightarrow> bool" where
  "isTemporarilyMuted now prefs =
     (case mutedUntil prefs of None \<Rightarrow> False | Some t \<Rightarrow> t > now)"

text \<open>
  The callback of \<open>subscriptions.filter\<close>. The test on \<open>expirationTime\<close> is
  \<open>sub.expirationTime && new Date(sub.expirationTime).getTime() < Date.now()\<close>: null
  and 0 are falsy and skip the comparison. The instants read by the three tests of one
  call are taken to be one instant \<open>now\<close>.
\<close>

definition eligible :: "wall_clock \<Rightarrow> int \<Rightarrow> NotificationCategory \<Rightarrow> Subscription \<Rightarrow> bool" where
  "eligible wall now category sub =
     (case preferences sub of
        None \<Rightarrow> False
      | Some prefs \<Rightarrow>
          if \<not> pref_of prefs category then False
          else if isTemporarilyMuted now prefs then False
          else if isWithinQuietHours wall now prefs then False
          else if (case expirationTime sub of None \<Rightarrow> False | Some t \<Rightarrow> t \<noteq> 0 \<and> t < now) then False
          else True)"

definition filterEligibleSubscriptions ::
  "wall_clock \<Rightarrow> int \<Rightarrow> Subscription list \<Rightarrow> NotificationCategory \<Rightarrow> Subscription list" where
  "filterEligibleSubscriptions wall now subscriptions category =
     filter (eligible wall now category) subscriptions"

subsection \<open>The eligibility rule in the words of the specification\<close>


subsection \<open>Concrete subscriptions\<close>


definition open_prefs :: NotificationPreferences where
  "open_prefs = \<lparr>flashSales = True, newArrivals = True, priceDrops = True, backInStock = True,
                  quietHours = None, mutedUntil = None\<rparr>"


definition noon :: wall_clock where
  "noon = (\<lambda>tz now. (12, 0))"





section \<open>Campaign dispatch and scheduling of the notification server\<close>

subsection \<open>Campaigns, events and the stores\<close>

datatype CampaignStatus = Scheduled | Sent

text \<open>
  A campaign as \<open>dispatchCampaign\<close> receives it: the descriptor built by
  \<open>/api/send-notification\<close>, the fields of the stored document when there is one, and
  \<open>_id\<close> (here \<open>oid\<close>: an ObjectId or a UUID when present). A text field that is
  absent is the empty string, which JavaScript treats as false just as it does
  \<open>undefined\<close>; \<open>ttl\<close> absent is 0. The instants read during one dispatch are taken
  to be one instant \<open>now\<close>, and the collections to answer.
\<close>

record Campaign =
  oid :: "string option"
  campaignId :: string
  notificationId :: string
  category :: NotificationCategory
  title :: string
  body :: string
  url :: string
  icon :: string
  image :: "string option"
  badge :: "string option"
  actions :: "string list"
  ttl :: nat
  sendAt :: "int option"
  status :: "CampaignStatus option"
  sentAt :: "int option"
  successCount :: "nat option"
  audienceCount :: "nat option"

datatype EventKind = Deliver | Open | Click | Dismiss

record CampaignEvent =
  ev_campaignId :: "string option"
  ev_notificationId :: "string option"
  event :: EventKind
  ev_category :: NotificationCategory
  ev_audience :: nat
  ev_delivered :: nat
  occurredAt :: int

text \<open>The JSON document sent to each subscription.\<close>

record PushPayload =
  push_title :: string
  push_body :: string
  push_icon :: string
  push_image :: "string option"
  push_badge :: "string option"
  push_actions :: "string list"
  push_url :: string
  push_campaignId :: string
  push_notificationId :: string
  push_category :: NotificationCategory

text \<open>
  A timer armed by \<open>setTimeout\<close>: the instant at which it is due and the campaign its
  callback dispatches.
\<close>

record timer =
  due :: int
  job :: Campaign

text \<open>
  The state of the server: the three collections, the calls made to
  \<open>webpush.sendNotification\<close> so far (endpoint, payload, TTL; oldest first), the timers
  that are armed, and the map \<open>scheduledCampaigns\<close> from \<open>String(campaign._id)\<close> to
  the timer.
\<close>

record server =
  subscriptions :: "Subscription list"
  campaigns :: "Campaign list"
  campaignEvents :: "CampaignEvent list"
  pushes :: "(string \<times> PushPayload \<times> nat) list"
  timers :: "timer list"
  scheduledCampaigns :: "(string \<times> timer) list"

text \<open>
  What the server reads from outside: the formatter of local time, the outcome of a push
  to a subscription, and \<open>DEFAULT_TTL_SECONDS\<close> (3600 unless the environment sets it).
  A push is accepted, or fails with the status code of the error if it has one.
\<close>

datatype push_result = Accepted | Failed "nat option"

record platform =
  local_time :: wall_clock
  webpush :: "Subscription \<Rightarrow> push_result"
  DEFAULT_TTL_SECONDS :: nat

subsection \<open>Collection operations\<close>

text \<open>\<open>deleteOne\<close> and \<open>updateOne\<close> act on the first document that matches.\<close>

fun deleteOne :: "('a \<Rightarrow> bool) \<Rightarrow> 'a list \<Rightarrow> 'a list" where
  "deleteOne P [] = []"
| "deleteOne P (x # xs) = (if P x then xs else x # deleteOne P xs)"

fun updateOne :: "('a \<Rightarrow> bool) \<Rightarrow> ('a \<Rightarrow> 'a) \<Rightarrow> 'a list \<Rightarrow> 'a list" where
  "updateOne P f [] = []"
| "updateOne P f (x # xs) = (if P x then f x # xs else x # updateOne P f xs)"

fun findOne :: "('a \<Rightarrow> bool) \<Rightarrow> 'a list \<Rightarrow> 'a option" where
  "findOne P [] = None"
| "findOne P (x # xs) = (if P x then Some x else findOne P xs)"

subsection \<open>Sending\<close>

text \<open>
  \<open>sendWebPush\<close>: a failure with status 410 or 404 deletes the subscription with that
  endpoint; every failure gives \<open>success: false\<close>.
\<close>

definition sendWebPush ::
  "platform \<Rightarrow> Subscription \<Rightarrow> PushPayload \<Rightarrow> nat \<Rightarrow> server \<Rightarrow> bool \<times> server" where
  "sendWebPush P subscription pl t st =
     (let st1 = st\<lparr>pushes := pushes st @ [(endpoint subscription, pl, t)]\<rparr> in
      case webpush P subscription of
        Accepted \<Rightarrow> (True, st1)
      | Failed code \<Rightarrow>
          (False,
           if code = Some 410 \<or> code = Some 404
           then st1\<lparr>subscriptions :=
                  deleteOne (\<lambda>s. endpoint s = endpoint subscription) (subscriptions st1)\<rparr>
           else st1))"

text \<open>
  \<open>Promise.all(eligible.map(...))\<close>: one send per eligible subscription; the results
  come back in the order of the list.
\<close>

fun send_all ::
  "platform \<Rightarrow> PushPayload \<Rightarrow> nat \<Rightarrow> Subscription list \<Rightarrow> server \<Rightarrow> bool list \<times> server" where
  "send_all P pl t [] st = ([], st)"
| "send_all P pl t (s # ss) st =
     (case sendWebPush P s pl t st of
        (r, st1) \<Rightarrow> (case send_all P pl t ss st1 of (rs, st2) \<Rightarrow> (r # rs, st2)))"

definition recordCampaignEvent :: "CampaignEvent \<Rightarrow> server \<Rightarrow> server" where
  "recordCampaignEvent ev st = st\<lparr>campaignEvents := campaignEvents st @ [ev]\<rparr>"

subsection \<open>dispatchCampaign\<close>

definition audience_of :: "NotificationCategory \<Rightarrow> server \<Rightarrow> Subscription list" where
  "audience_of c st =
     filter (\<lambda>s. case preferences s of None \<Rightarrow> False | Some p \<Rightarrow> pref_of p c) (subscriptions st)"

definition payload_of :: "Campaign \<Rightarrow> PushPayload" where
  "payload_of campaign =
     \<lparr>push_title = title campaign, push_body = body campaign, push_icon = icon campaign,
      push_image = image campaign, push_badge = badge campaign, push_actions = actions campaign,
      push_url = (if url campaign = [] then ''/'' else url campaign),
      push_campaignId = campaignId campaign, push_notificationId = notificationId campaign,
      push_category = category campaign\<rparr>"

definition dispatchCampaign :: "platform \<Rightarrow> int \<Rightarrow> Campaign \<Rightarrow> server \<Rightarrow> server" where
  "dispatchCampaign P now campaign st =
     (let audience = audience_of (category campaign) st;
          eligible_subs = filterEligibleSubscriptions (local_time P) now audience (category campaign);
          pl = payload_of campaign;
          t = (if ttl campaign = 0 then DEFAULT_TTL_SECONDS P else ttl campaign)
      in case send_all P pl t eligible_subs st of
        (results, st1) \<Rightarrow>
          let successes = length (filter (\<lambda>r. r) results);
              st2 =
                (if campaignId campaign = [] \<and> notificationId campaign = [] then st1
                 else recordCampaignEvent
                   \<lparr>ev_campaignId = (if campaignId campaign = [] then None else Some (campaignId campaign)),
                    ev_notificationId =
                      (if notificationId campaign = [] then None else Some (notificationId campaign)),
                    event = Deliver, ev_category = category campaign,
                    ev_audience = length eligible_subs, ev_delivered = successes,
                    occurredAt = now\<rparr> st1)
          in case oid campaign of
               None \<Rightarrow> st2
             | Some i \<Rightarrow>
                 st2\<lparr>campaigns :=
                   updateOne (\<lambda>d. oid d = Some i)
                     (\<lambda>d. d\<lparr>status := Some Sent, sentAt := Some now,
                             successCount := Some successes,
                             audienceCount := Some (length eligible_subs)\<rparr>)
                     (campaigns st2)\<rparr>)"

subsection \<open>The scheduler\<close>

text \<open>
  \<open>setTimeout\<close> of Node.js: a delay greater than \<open>TIMEOUT_MAX = 2^31 - 1\<close> or less
  than 1 is replaced by 1 (with a \<open>TimeoutOverflowWarning\<close> in the first case).
\<close>

definition TIMEOUT_MAX :: int where
  "TIMEOUT_MAX = 2147483647"

definition timeout_after :: "int \<Rightarrow> int" where
  "timeout_after delay = (if 1 \<le> delay \<and> delay \<le> TIMEOUT_MAX then delay else 1)"

text \<open>\<open>String(campaign._id)\<close>\<close>

definition id_string :: "Campaign \<Rightarrow> string" where
  "id_string campaign = (case oid campaign of None \<Rightarrow> ''undefined'' | Some i \<Rightarrow> i)"

text \<open>\<open>Map.set\<close> and \<open>Map.delete\<close> on the map of scheduled campaigns.\<close>

fun map_set :: "string \<Rightarrow> 'v \<Rightarrow> (string \<times> 'v) list \<Rightarrow> (string \<times> 'v) list" where
  "map_set k v [] = [(k, v)]"
| "map_set k v ((k', v') # m) = (if k' = k then (k, v) # m else (k', v') # map_set k v m)"

definition map_delete :: "string \<Rightarrow> (string \<times> 'v) list \<Rightarrow> (string \<times> 'v) list" where
  "map_delete k m = filter (\<lambda>kv. fst kv \<noteq> k) m"

text \<open>
  \<open>scheduleCampaignDispatch\<close>. With \<open>sendAt\<close> missing the delay is NaN: \<open>NaN <= 0\<close>
  is false and \<open>setTimeout\<close> takes the delay 1.
\<close>

definition arm :: "int \<Rightarrow> int \<Rightarrow> Campaign \<Rightarrow> server \<Rightarrow> server" where
  "arm now delay campaign st =
     (let timeout = \<lparr>due = now + timeout_after delay, job = campaign\<rparr> in
      st\<lparr>timers := timers st @ [timeout],
         scheduledCampaigns := map_set (id_string campaign) timeout (scheduledCampaigns st)\<rparr>)"

definition scheduleCampaignDispatch :: "platform \<Rightarrow> int \<Rightarrow> Campaign \<Rightarrow> server \<Rightarrow> server" where
  "scheduleCampaignDispatch P now campaign st =
     (case sendAt campaign of
        None \<Rightarrow> arm now 1 campaign st
      | Some due_at \<Rightarrow>
          let delay = due_at - now in
          if delay \<le> 0 then dispatchCampaign P now campaign st
          else arm now delay campaign st)"

text \<open>
  \<open>bootstrapCampaignScheduler\<close>: the documents with \<open>status: "scheduled"\<close> and
  \<open>sendAt >= new Date()\<close>, each handed to \<open>scheduleCampaignDispatch\<close>.
\<close>

definition upcoming :: "int \<Rightarrow> server \<Rightarrow> Campaign list" where
  "upcoming now st =
     filter (\<lambda>c. status c = Some Scheduled \<and> (case sendAt c of None \<Rightarrow> False | Some due_at \<Rightarrow> due_at \<ge> now))
       (campaigns st)"

definition bootstrapCampaignScheduler :: "platform \<Rightarrow> int \<Rightarrow> server \<Rightarrow> server" where
  "bootstrapCampaignScheduler P now st = fold (scheduleCampaignDispatch P now) (upcoming now st) st"

text \<open>
  The callback of a timer dispatches its campaign and removes the entry of the map.
  \<open>advance_to\<close> lets the clock reach \<open>now\<close>: every armed timer that is due by then
  fires, in the order in which the timers were armed.
\<close>

definition timeout_callback :: "platform \<Rightarrow> int \<Rightarrow> Campaign \<Rightarrow> server \<Rightarrow> server" where
  "timeout_callback P now campaign st =
     (let st1 = dispatchCampaign P now campaign st in
      st1\<lparr>scheduledCampaigns := map_delete (id_string campaign) (scheduledCampaigns st1)\<rparr>)"

fun fire_all :: "platform \<Rightarrow> int \<Rightarrow> timer list \<Rightarrow> server \<Rightarrow> server" where
  "fire_all P now [] st = st"
| "fire_all P now (tm # tms) st =
     fire_all P now tms
       (if due tm \<le> now
        then timeout_callback P now (job tm) (st\<lparr>timers := remove1 tm (timers st)\<rparr>)
        else st)"

definition advance_to :: "platform \<Rightarrow> int \<Rightarrow> server \<Rightarrow> server" where
  "advance_to P now st = fire_all P now (timers st) st"

subsection \<open>Notions used to state the properties of a dispatch\<close>

text \<open>
  The subscriptions a dispatch sends to, the number of them that accept the push, the
  call it makes for one of them, and the pruning of the subscriptions whose endpoint is
  reported gone (status 410 or 404).
\<close>

definition recipients :: "platform \<Rightarrow> int \<Rightarrow> Campaign \<Rightarrow> server \<Rightarrow> Subscription list" where
  "recipients P now campaign st =
     filterEligibleSubscriptions (local_time P) now (audience_of (category campaign) st) (category campaign)"

definition delivered :: "platform \<Rightarrow> Subscription list \<Rightarrow> nat" where
  "delivered P ss = length (filter (\<lambda>s. webpush P s = Accepted) ss)"

definition push_call :: "platform \<Rightarrow> Campaign \<Rightarrow> Subscription \<Rightarrow> string \<times> PushPayload \<times> nat" where
  "push_call P campaign s =
     (endpoint s, payload_of campaign,
      if ttl campaign = 0 then DEFAULT_TTL_SECONDS P else ttl campaign)"

definition gone :: "platform \<Rightarrow> Subscription \<Rightarrow> bool" where
  "gone P s = (webpush P s = Failed (Some 410) \<or> webpush P s = Failed (Some 404))"

fun prune :: "platform \<Rightarrow> Subscription list \<Rightarrow> Subscription list \<Rightarrow> Subscription list" where
  "prune P [] subs = subs"
| "prune P (s # ss) subs =
     prune P ss (if gone P s then deleteOne (\<lambda>x. endpoint x = endpoint s) subs else subs)"

definition mark_sent :: "int \<Rightarrow> nat \<Rightarrow> nat \<Rightarrow> Campaign \<Rightarrow> Campaign" where
  "mark_sent now successes audience d =
     d\<lparr>status := Some Sent, sentAt := Some now, successCount := Some successes,
       audienceCount := Some audience\<rparr>"

subsection \<open>A concrete shop\<close>

definition sale_campaign :: Campaign where
  "sale_campaign =
     \<lparr>oid = Some ''c1'', campaignId = ''spring'', notificationId = ''n1'', category = FlashSales,
      title = ''Sale'', body = ''Now'', url = ''/sale'', icon = ''i.png'', image = None,
      badge = None, actions = [], ttl = 0, sendAt = Some 1000, status = Some Scheduled,
      sentAt = None, successCount = None, audienceCount = None\<rparr>"

definition sub_open :: Subscription where
  "sub_open = \<lparr>endpoint = ''https://push.example/3'', keys = ''k3'',
                expirationTime = None, preferences = Some open_prefs\<rparr>"

definition shop :: server where
  "shop = \<lparr>subscriptions = [sub_open], campaigns = [sale_campaign], campaignEvents = [],
            pushes = [], timers = [], scheduledCampaigns = []\<rparr>"

definition always_accepts :: platform where
  "always_accepts = \<lparr>local_time = noon, webpush = (\<lambda>s. Accepted), DEFAULT_TTL_SECONDS = 3600\<rparr>"

definition once :: server where
  "once = dispatchCampaign always_accepts 1000 sale_campaign shop"

definition twice :: server where
  "twice = dispatchCampaign always_accepts 2000 sale_campaign once"

text \<open>
  A campaign scheduled thirty days ahead (2592000000 ms), and the server as it is when the
  process starts again at time 0: the collections as persisted, no timer, an empty map.
\<close>

definition far_campaign :: Campaign where
  "far_campaign = sale_campaign\<lparr>oid := Some ''c2'', sendAt := Some 2592000000\<rparr>"

definition restarted :: server where
  "restarted = \<lparr>subscriptions = [sub_open], campaigns = [far_campaign], campaignEvents = [],
                 pushes = [], timers = [], scheduledCampaigns = []\<rparr>"

section \<open>The order endpoint of the server\<close>












section \<open>Properties of the offline checkout queue\<close>

lemma keyed_Cons: "keyed (x # q) = ((\<forall>y\<in>set q. item_id x < item_id y) \<and> keyed q)"
  by (simp add: keyed_def)

lemma delete_head: "keyed (x # q) \<Longrightarrow> store_delete (item_id x) (x # q) = q"
  unfolding store_delete_def keyed_Cons
  by (simp add: filter_id_conv) (metis less_irrefl)

lemma replay_loop_effect:
  "keyed q \<Longrightarrow> store st = q \<Longrightarrow>
   replay_loop e q st =
     st\<lparr>store := dropWhile (passes e) q,
        sent := sent st @ map (completion e) (takeWhile (passes e) q),
        posted := posted st @ map payload (filter (\<lambda>i. \<not> expired e i) (takeWhile (passes e) q))
                    @ map payload (take 1 (dropWhile (passes e) q))\<rparr>"
proof (induction q arbitrary: st)
  case Nil
  then show ?case by simp
next
  case (Cons x q)
  have k: "keyed q" using Cons.prems(1) by (simp add: keyed_Cons)
  have d: "deleteQueuedCheckout (item_id x) (store st) = q"
    using Cons.prems by (simp add: deleteQueuedCheckout_def delete_head)
  show ?case
  proof (cases "expired e x")
    case True
    then show ?thesis
      using Cons.IH[OF k, of "broadcastMessage (CHECKOUT_SYNC_COMPLETE False (payload x) (Some ''expired'')) (st\<lparr>store := q\<rparr>)"] d
      by (simp add: passes_def completion_def broadcastMessage_def)
  next
    case False
    show ?thesis
    proof (cases "response_ok (fetch_orders e x)")
      case True
      then show ?thesis
        using False Cons.IH[OF k, of "broadcastMessage (CHECKOUT_SYNC_COMPLETE True (payload x) None) (st\<lparr>posted := posted st @ [payload x], store := q\<rparr>)"] d
        by (simp add: passes_def completion_def broadcastMessage_def Let_def)
    next
      case nok: False
      then show ?thesis using False Cons.prems(2)
        by (simp add: passes_def Let_def)
    qed
  qed
qed

lemma processCheckoutQueue_effect:
  assumes "keyed (store st)"
  shows "processCheckoutQueue e st =
     st\<lparr>store := dropWhile (passes e) (store st),
        sent := sent st @ map (completion e) (takeWhile (passes e) (store st))
                  @ [(AllWindows, CHECKOUT_SYNC_PENDING (length (dropWhile (passes e) (store st))))],
        posted := posted st @ map payload (filter (\<lambda>i. \<not> expired e i) (takeWhile (passes e) (store st)))
                    @ map payload (take 1 (dropWhile (passes e) (store st)))\<rparr>"
proof (cases "store st")
  case Nil
  then show ?thesis
    by (simp add: processCheckoutQueue_def getAllQueuedCheckouts_def store_getAll_def
        broadcastMessage_def)
next
  case (Cons x q)
  have "replay_loop e (store st) st = st\<lparr>store := dropWhile (passes e) (store st),
        sent := sent st @ map (completion e) (takeWhile (passes e) (store st)),
        posted := posted st @ map payload (filter (\<lambda>i. \<not> expired e i) (takeWhile (passes e) (store st)))
                    @ map payload (take 1 (dropWhile (passes e) (store st)))\<rparr>"
    using replay_loop_effect[OF assms refl] .
  then show ?thesis using Cons
    by (simp add: processCheckoutQueue_def getAllQueuedCheckouts_def store_getAll_def
        broadcastMessage_def sendQueueStatus_def)
qed




lemma set_store_put: "set (store_put x q) \<subseteq> insert x (set q)"
  by (induction q) auto

lemma ids_store_put: "item_id ` set (store_put x q) = insert (item_id x) (item_id ` set q)"
  by (induction q) auto

lemma keyed_store_put: "keyed q \<Longrightarrow> keyed (store_put x q)"
proof (induction q)
  case Nil
  then show ?case by (simp add: keyed_def)
next
  case (Cons y q)
  have kq: "keyed q" and lt: "\<forall>z\<in>set q. item_id y < item_id z"
    using Cons.prems by (simp_all add: keyed_Cons)
  show ?case
  proof (cases "item_id x < item_id y")
    case True
    then show ?thesis using Cons.prems lt by (auto simp: keyed_Cons)
  next
    case False
    show ?thesis
    proof (cases "item_id x = item_id y")
      case True
      then show ?thesis using kq lt by (simp add: keyed_Cons)
    next
      case ne: False
      have "item_id y < item_id x" using False ne by simp
      moreover have "\<forall>z\<in>set (store_put x q). item_id y < item_id z"
        using lt calculation set_store_put[of x q] by auto
      ultimately show ?thesis using False ne Cons.IH[OF kq] by (simp add: keyed_Cons)
    qed
  qed
qed

lemma keyed_store_delete: "keyed q \<Longrightarrow> keyed (store_delete k q)"
  unfolding keyed_def store_delete_def
  by (induction q) auto

lemma keyed_apply_op: "keyed q \<Longrightarrow> keyed (apply_op op q)"
  by (cases op) (simp_all add: enqueueCheckout_def deleteQueuedCheckout_def keyed_store_put keyed_store_delete)

lemma keyed_fold: "keyed q \<Longrightarrow> keyed (fold apply_op ops q)"
  by (induction ops arbitrary: q) (simp_all add: keyed_apply_op)

lemma keyed_run_ops: "keyed (run_ops ops)"
  unfolding run_ops_def by (rule keyed_fold) (simp add: keyed_def)

lemma keyed_distinct: "keyed q \<Longrightarrow> distinct (map item_id q)"
  unfolding keyed_def by (simp add: strict_sorted_iff)



text \<open>
  Claim C7 as stated fails. Order B is enqueued at time 1 and order A at time 2: the full
  read returns A before B, which is not ascending in \<open>queuedAt\<close>, and the pass posts A
  first.
\<close>

theorem listAll_not_by_queuedAt_counterexample:
  "getAllQueuedCheckouts b_then_a =
     [\<lparr>item_id = ''A'', payload = order_A, queuedAt = 2\<rparr>,
      \<lparr>item_id = ''B'', payload = order_B, queuedAt = 1\<rparr>] \<and>
   \<not> sorted (map queuedAt (getAllQueuedCheckouts b_then_a)) \<and>
   posted (processCheckoutQueue all_ok \<lparr>store = b_then_a, sent = [], posted = []\<rparr>) =
     [order_A, order_B]"
proof -
  have q: "b_then_a =
     [\<lparr>item_id = ''A'', payload = order_A, queuedAt = 2\<rparr>,
      \<lparr>item_id = ''B'', payload = order_B, queuedAt = 1\<rparr>]"
    by (simp add: b_then_a_def run_ops_def enqueueCheckout_def order_A_def order_B_def)
  have p: "posted (processCheckoutQueue all_ok \<lparr>store = b_then_a, sent = [], posted = []\<rparr>) =
     [order_A, order_B]"
    unfolding q
    by (simp add: processCheckoutQueue_def getAllQueuedCheckouts_def store_getAll_def
        sendQueueStatus_def broadcastMessage_def expired_def ageMinutes_def all_ok_def
        deleteQueuedCheckout_def store_delete_def Let_def)
  show ?thesis using p by (simp add: q getAllQueuedCheckouts_def store_getAll_def)
qed

lemma posted_prefix:
  assumes "keyed (store st)"
  shows "posted (processCheckoutQueue e st) =
     posted st @ map payload (filter (\<lambda>i. \<not> expired e i)
        (take (Suc (length (takeWhile (passes e) (store st)))) (store st)))"
proof -
  let ?q = "store st"
  let ?n = "length (takeWhile (passes e) ?q)"
  have t: "take (Suc ?n) ?q = takeWhile (passes e) ?q @ take (Suc 0) (dropWhile (passes e) ?q)"
  proof -
    have "take (Suc ?n) (takeWhile (passes e) ?q @ dropWhile (passes e) ?q)
        = takeWhile (passes e) ?q @ take (Suc 0) (dropWhile (passes e) ?q)"
      by (simp only: take_append) simp
    then show ?thesis by simp
  qed
  have h: "filter (\<lambda>i. \<not> expired e i) (take (Suc 0) (dropWhile (passes e) ?q)) = take (Suc 0) (dropWhile (passes e) ?q)"
  proof (cases "dropWhile (passes e) ?q")
    case Nil
    then show ?thesis by (simp only: take_Nil filter.simps)
  next
    case (Cons y ys)
    then have "\<not> passes e y" using hd_dropWhile[of "passes e" ?q] by force
    then show ?thesis using Cons by (simp add: passes_def)
  qed
  show ?thesis
    by (simp add: processCheckoutQueue_effect[OF assms] t h)
qed

lemma keyed_mono_sorted:
  "keyed q \<Longrightarrow> (\<forall>i\<in>set q. \<forall>j\<in>set q. item_id i < item_id j \<longrightarrow> queuedAt i \<le> queuedAt j)
   \<Longrightarrow> sorted (map queuedAt q)"
  by (induction q) (auto simp: keyed_Cons)

text \<open>
  Claim C7, amended. The full read returns the stored items in strictly ascending order of
  their id, the key of the store, whatever the enqueue times; the pass posts the payloads
  of the not expired items of a prefix of that sequence, in that order; and the sequence is
  ascending in \<open>queuedAt\<close> whenever ids ascend with enqueue times.
\<close>

theorem listAll_ascending_by_id:
  "sorted_wrt (<) (map item_id (getAllQueuedCheckouts (run_ops ops))) \<and>
   posted (processCheckoutQueue e \<lparr>store = run_ops ops, sent = ms, posted = ps\<rparr>) =
     ps @ map payload (filter (\<lambda>i. \<not> expired e i)
        (take (Suc (length (takeWhile (passes e) (getAllQueuedCheckouts (run_ops ops)))))
           (getAllQueuedCheckouts (run_ops ops)))) \<and>
   ((\<forall>i\<in>set (run_ops ops). \<forall>j\<in>set (run_ops ops).
        item_id i < item_id j \<longrightarrow> queuedAt i \<le> queuedAt j) \<longrightarrow>
      sorted (map queuedAt (getAllQueuedCheckouts (run_ops ops))))"
proof -
  have k: "keyed (run_ops ops)" by (rule keyed_run_ops)
  have k': "keyed (store \<lparr>store = run_ops ops, sent = ms, posted = ps\<rparr>)" using k by simp
  show ?thesis
    using k keyed_mono_sorted[OF k] posted_prefix[OF k', of e]
    by (simp add: getAllQueuedCheckouts_def store_getAll_def keyed_def)
qed

lemma run_abc_ops: "run_ops abc_ops =
   [\<lparr>item_id = ''A'', payload = order_A, queuedAt = 10\<rparr>,
    \<lparr>item_id = ''B'', payload = order_B, queuedAt = 20\<rparr>,
    \<lparr>item_id = ''C'', payload = order_C, queuedAt = 30\<rparr>]"
  by (simp add: abc_ops_def run_ops_def enqueueCheckout_def order_A_def order_B_def order_C_def)

text \<open>
  Orders A, B, C enqueued at times 10, 20, 30: ids and times ascend together.
\<close>

theorem listAll_ascending_by_id_witness:
  "map item_id (getAllQueuedCheckouts (run_ops abc_ops)) = [''A'', ''B'', ''C''] \<and>
   sorted_wrt (<) (map item_id (getAllQueuedCheckouts (run_ops abc_ops))) \<and>
   sorted (map queuedAt (getAllQueuedCheckouts (run_ops abc_ops))) \<and>
   posted (processCheckoutQueue all_ok \<lparr>store = run_ops abc_ops, sent = [], posted = []\<rparr>) =
     [order_A, order_B, order_C]"
proof -
  have m: "\<forall>i\<in>set (run_ops abc_ops). \<forall>j\<in>set (run_ops abc_ops).
        item_id i < item_id j \<longrightarrow> queuedAt i \<le> queuedAt j"
    by (simp add: run_abc_ops)
  have p: "passes all_ok i" for i
    by (simp add: passes_def all_ok_def)
  have x: "\<not> expired all_ok \<lparr>item_id = k, payload = r, queuedAt = t\<rparr>" if "0 \<le> t" for k r t
    using that by (simp add: expired_def ageMinutes_def all_ok_def)
  from listAll_ascending_by_id[of abc_ops all_ok "[]" "[]"] m
  have "sorted_wrt (<) (map item_id (getAllQueuedCheckouts (run_ops abc_ops))) \<and>
     posted (processCheckoutQueue all_ok \<lparr>store = run_ops abc_ops, sent = [], posted = []\<rparr>) =
       [] @ map payload (filter (\<lambda>i. \<not> expired all_ok i)
        (take (Suc (length (takeWhile (passes all_ok) (getAllQueuedCheckouts (run_ops abc_ops)))))
           (getAllQueuedCheckouts (run_ops abc_ops)))) \<and>
     sorted (map queuedAt (getAllQueuedCheckouts (run_ops abc_ops)))"
    by blast
  then show ?thesis
    by (simp add: getAllQueuedCheckouts_def store_getAll_def run_abc_ops p x)
qed

text \<open>
  Claim C4 as stated fails. Order B was enqueued at time 0 and order A 73 hours later; one
  minute after that B is older than 72 hours, A is not, and the network is down. The pass
  starts with A, whose key is smaller, stops at its failed write and never reaches B: B
  stays in the store and no completion event is sent.
\<close>

theorem expired_item_not_reached_counterexample:
  "store late_state =
     [\<lparr>item_id = ''A'', payload = order_A, queuedAt = 262800000\<rparr>,
      \<lparr>item_id = ''B'', payload = order_B, queuedAt = 0\<rparr>] \<and>
   expired offline_later \<lparr>item_id = ''B'', payload = order_B, queuedAt = 0\<rparr> \<and>
   store (processCheckoutQueue offline_later late_state) = store late_state \<and>
   sent (processCheckoutQueue offline_later late_state) = [(AllWindows, CHECKOUT_SYNC_PENDING 2)]"
proof -
  have q: "store late_state =
     [\<lparr>item_id = ''A'', payload = order_A, queuedAt = 262800000\<rparr>,
      \<lparr>item_id = ''B'', payload = order_B, queuedAt = 0\<rparr>]"
    by (simp add: late_state_def run_ops_def enqueueCheckout_def order_A_def order_B_def)
  have x: "expired offline_later \<lparr>item_id = ''B'', payload = order_B, queuedAt = 0\<rparr>"
    by (simp add: expired_def ageMinutes_def offline_later_def)
  have nx: "\<not> expired offline_later \<lparr>item_id = ''A'', payload = order_A, queuedAt = 262800000\<rparr>"
    by (simp add: expired_def ageMinutes_def offline_later_def)
  have f: "fetch_orders offline_later i = NetworkError" for i
    by (simp add: offline_later_def)
  have s0: "sent late_state = []" by (simp add: late_state_def)
  have "store (processCheckoutQueue offline_later late_state) = store late_state \<and>
   sent (processCheckoutQueue offline_later late_state) = [(AllWindows, CHECKOUT_SYNC_PENDING 2)]"
    using q nx f s0
    by (simp add: processCheckoutQueue_def getAllQueuedCheckouts_def store_getAll_def
        sendQueueStatus_def broadcastMessage_def Let_def)
  then show ?thesis using q x by simp
qed

text \<open>
  Claim C4, amended. An item is expired exactly when the clock read for it is more than
  72 hours (259200000 ms) past its \<open>queuedAt\<close>. No pass posts an expired item. An
  expired item that the pass reaches, that is, one before which every item of the snapshot
  is expired or written successfully, is deleted and reported by a failed completion event
  with reason \<open>expired\<close>, whatever the network answers, and the pass goes on with the
  items after it.
\<close>

theorem expired_item_dropped_when_reached:
  "keyed (store st) \<Longrightarrow>
   (expired e i = (clock e i - queuedAt i > 72 * 60 * 60 * 1000)) \<and>
   (\<exists>xs. posted (processCheckoutQueue e st) = posted st @ map payload xs \<and>
         (\<forall>x\<in>set xs. x \<in> set (store st) \<and> \<not> expired e x)) \<and>
   (store st = before @ item # after \<and> expired e item \<and> (\<forall>j\<in>set before. passes e j) \<longrightarrow>
      item \<notin> set (store (processCheckoutQueue e st)) \<and>
      store (processCheckoutQueue e st) = dropWhile (passes e) after \<and>
      sent (processCheckoutQueue e st) =
        sent st @ map (completion e) before
          @ [(AllWindows, CHECKOUT_SYNC_COMPLETE False (payload item) (Some ''expired''))]
          @ map (completion e) (takeWhile (passes e) after)
          @ [(AllWindows, CHECKOUT_SYNC_PENDING (length (dropWhile (passes e) after)))] \<and>
      posted (processCheckoutQueue e st) =
        posted st @ map payload (filter (\<lambda>i. \<not> expired e i) before)
          @ map payload (filter (\<lambda>i. \<not> expired e i) (takeWhile (passes e) after))
          @ map payload (take 1 (dropWhile (passes e) after)))"
proof -
  assume k: "keyed (store st)"
  have thr: "expired e i = (clock e i - queuedAt i > 72 * 60 * 60 * 1000)"
    by (simp add: expired_def ageMinutes_def less_divide_eq) linarith?
  have never: "\<exists>xs. posted (processCheckoutQueue e st) = posted st @ map payload xs \<and>
         (\<forall>x\<in>set xs. x \<in> set (store st) \<and> \<not> expired e x)"
  proof (intro exI conjI)
    show "posted (processCheckoutQueue e st) = posted st @ map payload (filter (\<lambda>i. \<not> expired e i)
        (take (Suc (length (takeWhile (passes e) (store st)))) (store st)))"
      by (rule posted_prefix[OF k])
    show "\<forall>x\<in>set (filter (\<lambda>i. \<not> expired e i)
        (take (Suc (length (takeWhile (passes e) (store st)))) (store st))).
        x \<in> set (store st) \<and> \<not> expired e x"
      by (auto dest: in_set_takeD)
  qed
  have reached: "item \<notin> set (store (processCheckoutQueue e st)) \<and>
      store (processCheckoutQueue e st) = dropWhile (passes e) after \<and>
      sent (processCheckoutQueue e st) =
        sent st @ map (completion e) before
          @ [(AllWindows, CHECKOUT_SYNC_COMPLETE False (payload item) (Some ''expired''))]
          @ map (completion e) (takeWhile (passes e) after)
          @ [(AllWindows, CHECKOUT_SYNC_PENDING (length (dropWhile (passes e) after)))] \<and>
      posted (processCheckoutQueue e st) =
        posted st @ map payload (filter (\<lambda>i. \<not> expired e i) before)
          @ map payload (filter (\<lambda>i. \<not> expired e i) (takeWhile (passes e) after))
          @ map payload (take 1 (dropWhile (passes e) after))"
    if h: "store st = before @ item # after \<and> expired e item \<and> (\<forall>j\<in>set before. passes e j)"
  proof -
    have pi: "passes e item" using h by (simp add: passes_def)
    have tw: "takeWhile (passes e) (store st) = before @ item # takeWhile (passes e) after"
      using h pi by (simp add: takeWhile_append2)
    have dw: "dropWhile (passes e) (store st) = dropWhile (passes e) after"
      using h pi by (simp add: dropWhile_append2)
    have "distinct (map item_id (before @ item # after))"
      using keyed_distinct[OF k] h by simp
    then have "item \<notin> set after" by auto
    then have ni: "item \<notin> set (dropWhile (passes e) after)"
      using set_dropWhileD by fastforce
    show ?thesis
      using h ni pi by (simp add: processCheckoutQueue_effect[OF k] tw dw completion_def)
  qed
  show ?thesis using thr never reached by blast
qed

text \<open>
  Order A is 73 hours old, order B is fresh and the network is down: A is dropped and
  reported as expired, B is posted, fails and stays.
\<close>

theorem expired_item_dropped_witness:
  "keyed (store stale_state) \<and>
   store stale_state =
     [\<lparr>item_id = ''A'', payload = order_A, queuedAt = 0\<rparr>,
      \<lparr>item_id = ''B'', payload = order_B, queuedAt = 262800000\<rparr>] \<and>
   expired offline_later \<lparr>item_id = ''A'', payload = order_A, queuedAt = 0\<rparr> \<and>
   store (processCheckoutQueue offline_later stale_state) =
     [\<lparr>item_id = ''B'', payload = order_B, queuedAt = 262800000\<rparr>] \<and>
   sent (processCheckoutQueue offline_later stale_state) =
     [(AllWindows, CHECKOUT_SYNC_COMPLETE False order_A (Some ''expired'')),
      (AllWindows, CHECKOUT_SYNC_PENDING 1)] \<and>
   posted (processCheckoutQueue offline_later stale_state) = [order_B]"
proof -
  let ?a = "\<lparr>item_id = ''A'', payload = order_A, queuedAt = 0\<rparr>"
  let ?b = "\<lparr>item_id = ''B'', payload = order_B, queuedAt = 262800000\<rparr>"
  have q: "store stale_state = [] @ ?a # [?b]"
    by (simp add: stale_state_def run_ops_def enqueueCheckout_def order_A_def order_B_def)
  have k: "keyed (store stale_state)"
    by (simp add: q keyed_def)
  have x: "expired offline_later ?a"
    by (simp add: expired_def ageMinutes_def offline_later_def)
  have nb: "\<not> passes offline_later ?b"
    by (simp add: passes_def expired_def ageMinutes_def offline_later_def)
  have z: "sent stale_state = []" "posted stale_state = []"
    by (simp_all add: stale_state_def)
  from expired_item_dropped_when_reached[OF k, of offline_later ?a "[]" ?a "[?b]"] q x
  have "store (processCheckoutQueue offline_later stale_state) = dropWhile (passes offline_later) [?b] \<and>
      sent (processCheckoutQueue offline_later stale_state) =
        sent stale_state @ map (completion offline_later) []
          @ [(AllWindows, CHECKOUT_SYNC_COMPLETE False (payload ?a) (Some ''expired''))]
          @ map (completion offline_later) (takeWhile (passes offline_later) [?b])
          @ [(AllWindows, CHECKOUT_SYNC_PENDING (length (dropWhile (passes offline_later) [?b])))] \<and>
      posted (processCheckoutQueue offline_later stale_state) =
        posted stale_state @ map payload (filter (\<lambda>i. \<not> expired offline_later i) [])
          @ map payload (filter (\<lambda>i. \<not> expired offline_later i) (takeWhile (passes offline_later) [?b]))
          @ map payload (take 1 (dropWhile (passes offline_later) [?b]))"
    by simp
  then show ?thesis using k q x nb z by simp
qed

section \<open>Properties of passes in progress\<close>

lemma settle_single:
  "settle e 0 \<lparr>state = st, inflight = [p]\<rparr> =
     \<lparr>state = snd (resume e p st), inflight = [fst (resume e p st)]\<rparr>"
  by (simp add: settle_def split: prod.splits)

lemma run_Cons: "run e (x # xs) w = run e xs (occur e x w)"
  by (simp add: run_def)

lemma run_Nil: "run e [] w = w"
  by (simp add: run_def)

lemma run_done:
  "run e (replicate n (Settle 0)) \<lparr>state = st, inflight = [Done]\<rparr> = \<lparr>state = st, inflight = [Done]\<rparr>"
  by (induction n) (simp_all add: run_Nil run_Cons settle_single)

lemma run_status:
  "0 < n \<Longrightarrow> run e (replicate n (Settle 0)) \<lparr>state = st, inflight = [AwaitStatus]\<rparr> =
     \<lparr>state = sendQueueStatus None st, inflight = [Done]\<rparr>"
  by (cases n) (simp_all add: run_Cons settle_single run_done)

lemma run_loop:
  "length q < n \<Longrightarrow>
   run e (replicate n (Settle 0))
     \<lparr>state = snd (loop_until_fetch e q st), inflight = [fst (loop_until_fetch e q st)]\<rparr> =
     \<lparr>state = sendQueueStatus None (replay_loop e q st), inflight = [Done]\<rparr>"
proof (induction q arbitrary: st n)
  case Nil
  then show ?case by (simp add: run_status)
next
  case (Cons item rest)
  show ?case
  proof (cases "expired e item")
    case True
    then show ?thesis using Cons.IH[of n] Cons.prems by simp
  next
    case False
    obtain m where n: "n = Suc m" using Cons.prems by (cases n) auto
    have m: "length rest < m" using Cons.prems n by simp
    show ?thesis
    proof (cases "response_ok (fetch_orders e item)")
      case True
      then show ?thesis
        using False Cons.IH[OF m] by (simp add: n run_Cons settle_single Let_def)
    next
      case nok: False
      have "0 < m" using m by simp
      then show ?thesis
        using False nok by (simp add: n run_Cons settle_single Let_def run_status)
    qed
  qed
qed

text \<open>
  A pass during which nothing else happens is the sequential \<open>processCheckoutQueue\<close>:
  the steps of the pass in progress compose to the function of the first section.
\<close>

lemma lone_pass:
  assumes "length (store st) + 2 \<le> n"
  shows "run e (Message t src TRIGGER_CHECKOUT_SYNC # replicate n (Settle 0)) (idle st) =
     \<lparr>state = processCheckoutQueue e st, inflight = [Done]\<rparr>"
proof -
  obtain m where n: "n = Suc m" using assms by (cases n) auto
  have m: "length (store st) < m" using assms n by simp
  show ?thesis
  proof (cases "store st")
    case Nil
    then show ?thesis
      by (simp add: run_Cons idle_def start_pass_def n settle_single getAllQueuedCheckouts_def
          store_getAll_def processCheckoutQueue_def run_done)
  next
    case (Cons x xs)
    have "run e (replicate m (Settle 0))
       \<lparr>state = snd (loop_until_fetch e (store st) st), inflight = [fst (loop_until_fetch e (store st) st)]\<rparr> =
       \<lparr>state = sendQueueStatus None (replay_loop e (store st) st), inflight = [Done]\<rparr>"
      by (rule run_loop[OF m])
    then show ?thesis using Cons
      by (simp add: run_Cons idle_def start_pass_def n settle_single getAllQueuedCheckouts_def
          store_getAll_def processCheckoutQueue_def)
  qed
qed

lemma trigger_starts_pass:
  "in_progress (occur e (Message t src TRIGGER_CHECKOUT_SYNC) w) = Suc (in_progress w) \<and>
   in_progress (occur e (Sync ''checkout-sync'') w) = Suc (in_progress w) \<and>
   state (occur e (Message t src TRIGGER_CHECKOUT_SYNC) w) = state w \<and>
   inflight (occur e (Message t src TRIGGER_CHECKOUT_SYNC) w) = inflight w @ [AwaitSnapshot] \<and>
   inflight (occur e (Sync ''checkout-sync'') w) = inflight w @ [AwaitSnapshot]"
  by (simp add: in_progress_def start_pass_def on_sync_def)

lemma double_send:
  assumes "store st = item # rest" "\<not> expired e item"
  shows "run e [Message t1 s1 TRIGGER_CHECKOUT_SYNC, Message t2 s2 TRIGGER_CHECKOUT_SYNC,
               Settle 0, Settle 1] (idle st) =
     \<lparr>state = st\<lparr>posted := posted st @ [payload item, payload item]\<rparr>,
      inflight = [AwaitFetch item rest, AwaitFetch item rest]\<rparr>"
  using assms
  by (simp add: run_def idle_def start_pass_def settle_def getAllQueuedCheckouts_def
      store_getAll_def)


lemma one_order_state:
  "one_order = idle \<lparr>store = [\<lparr>item_id = ''A'', payload = order_A, queuedAt = 10\<rparr>],
                      sent = [], posted = []\<rparr>"
  by (simp add: one_order_def run_ops_def enqueueCheckout_def order_A_def)

lemma fresh_A: "\<not> expired all_ok \<lparr>item_id = ''A'', payload = order_A, queuedAt = 10\<rparr>"
  by (simp add: expired_def ageMinutes_def all_ok_def)

lemma ok_all: "response_ok (fetch_orders all_ok i)"
  by (simp add: all_ok_def)

text \<open>
  Claim C9 as stated fails. Two clients send \<open>TRIGGER_CHECKOUT_SYNC\<close> one after the
  other while order A is queued. After the second message two passes are in progress.
  Both read the snapshot with A in it before either has deleted it, so A is posted twice;
  both then report success for A and a pending count of 0.
\<close>

theorem overlapping_passes_counterexample:
  "in_progress (run all_ok two_triggers one_order) = 2 \<and>
   posted (state (run all_ok (two_triggers @ [Settle 0, Settle 1]) one_order)) = [order_A, order_A] \<and>
   sent (state (run all_ok (two_triggers @ [Settle 0, Settle 1, Settle 0, Settle 1, Settle 0, Settle 1])
      one_order)) =
     [(AllWindows, CHECKOUT_SYNC_COMPLETE True order_A None),
      (AllWindows, CHECKOUT_SYNC_COMPLETE True order_A None),
      (AllWindows, CHECKOUT_SYNC_PENDING 0),
      (AllWindows, CHECKOUT_SYNC_PENDING 0)]"
  using fresh_A ok_all
  by (simp add: one_order_state two_triggers_def run_def idle_def start_pass_def settle_def
      in_progress_def getAllQueuedCheckouts_def store_getAll_def deleteQueuedCheckout_def
      store_delete_def broadcastMessage_def sendQueueStatus_def)

text \<open>
  Claim C9, amended. Replay is not single-flight. A \<open>TRIGGER_CHECKOUT_SYNC\<close> message and
  a \<open>sync\<close> event tagged \<open>checkout-sync\<close> each start a pass at once, whatever the number
  of passes in progress, which grows by one: no trigger is dropped or deferred. Two passes
  started before either has read the store both post the first queued item when it is not
  expired. A pass started on an idle worker and left alone until it ends changes the state
  exactly as the sequential \<open>processCheckoutQueue\<close> does.
\<close>

theorem triggers_start_passes_at_once:
  "in_progress (occur e (Message t src TRIGGER_CHECKOUT_SYNC) w) = Suc (in_progress w) \<and>
   in_progress (occur e (Sync ''checkout-sync'') w) = Suc (in_progress w) \<and>
   (store st = item # rest \<and> \<not> expired e item \<longrightarrow>
      run e [Message t1 s1 TRIGGER_CHECKOUT_SYNC, Message t2 s2 TRIGGER_CHECKOUT_SYNC,
             Settle 0, Settle 1] (idle st) =
        \<lparr>state = st\<lparr>posted := posted st @ [payload item, payload item]\<rparr>,
         inflight = [AwaitFetch item rest, AwaitFetch item rest]\<rparr>) \<and>
   (length (store st) + 2 \<le> n \<longrightarrow>
      run e (Message t src TRIGGER_CHECKOUT_SYNC # replicate n (Settle 0)) (idle st) =
        \<lparr>state = processCheckoutQueue e st, inflight = [Done]\<rparr>)"
  using trigger_starts_pass[of e t src w] double_send[of st item rest e t1 s1 t2 s2]
    lone_pass[of st n e t src]
  by blast

text \<open>
  The worker with order A queued: one trigger left alone, and two triggers in a row.
\<close>

theorem triggers_start_passes_witness:
  "store (state one_order) = [\<lparr>item_id = ''A'', payload = order_A, queuedAt = 10\<rparr>] \<and>
   \<not> expired all_ok \<lparr>item_id = ''A'', payload = order_A, queuedAt = 10\<rparr> \<and>
   in_progress one_order = 0 \<and>
   in_progress (occur all_ok (Message 500 (Some ''tab-1'') TRIGGER_CHECKOUT_SYNC) one_order) = 1 \<and>
   posted (state (run all_ok [Message 500 (Some ''tab-1'') TRIGGER_CHECKOUT_SYNC,
                               Message 501 (Some ''tab-2'') TRIGGER_CHECKOUT_SYNC,
                               Settle 0, Settle 1] one_order)) = [order_A, order_A] \<and>
   run all_ok (Message 500 (Some ''tab-1'') TRIGGER_CHECKOUT_SYNC # replicate 3 (Settle 0)) one_order =
     \<lparr>state = processCheckoutQueue all_ok (state one_order), inflight = [Done]\<rparr>"
proof -
  let ?a = "\<lparr>item_id = ''A'', payload = order_A, queuedAt = 10\<rparr>"
  let ?st = "\<lparr>store = [?a], sent = [], posted = []\<rparr>"
  have o: "one_order = idle ?st" by (rule one_order_state)
  have s: "store ?st = ?a # []" by simp
  have l: "length (store ?st) + 2 \<le> 3" by simp
  have z: "in_progress one_order = 0" by (simp add: o idle_def in_progress_def)
  from triggers_start_passes_at_once[of all_ok 500 "Some ''tab-1''" one_order ?st ?a "[]"
      500 "Some ''tab-1''" 501 "Some ''tab-2''" 3] s fresh_A l z
  show ?thesis
    by (simp add: o) (simp add: idle_def)
qed

section \<open>Properties of the audience filter\<close>











section \<open>Properties of dispatch and scheduling\<close>

lemma send_all_effect:
  "send_all P pl t ss st =
     (map (\<lambda>s. webpush P s = Accepted) ss,
      st\<lparr>subscriptions := prune P ss (subscriptions st),
         pushes := pushes st @ map (\<lambda>s. (endpoint s, pl, t)) ss\<rparr>)"
proof (induction ss arbitrary: st)
  case Nil
  then show ?case by simp
next
  case (Cons s ss)
  show ?case
  proof (cases "webpush P s")
    case Accepted
    then show ?thesis
      by (simp add: sendWebPush_def Cons.IH gone_def)
  next
    case (Failed code)
    then show ?thesis
      by (simp add: sendWebPush_def Cons.IH gone_def)
  qed
qed

lemma count_true_map: "length (filter (\<lambda>r. r) (map f xs)) = length (filter f xs)"
  by (induction xs) simp_all

lemma dispatchCampaign_pushes:
  "pushes (dispatchCampaign P now c st) = pushes st @ map (push_call P c) (recipients P now c st)"
  by (simp add: dispatchCampaign_def Let_def send_all_effect recipients_def push_call_def
      recordCampaignEvent_def split: option.splits)

lemma dispatchCampaign_campaigns:
  "campaigns (dispatchCampaign P now c st) =
     (case oid c of
        None \<Rightarrow> campaigns st
      | Some i \<Rightarrow> updateOne (\<lambda>d. oid d = Some i)
          (mark_sent now (delivered P (recipients P now c st)) (length (recipients P now c st)))
          (campaigns st))"
  by (simp add: dispatchCampaign_def Let_def send_all_effect recipients_def delivered_def
      recordCampaignEvent_def o_def mark_sent_def[abs_def] split: option.splits)

lemma dispatchCampaign_events:
  "length (campaignEvents (dispatchCampaign P now c st)) =
     length (campaignEvents st) + (if campaignId c = [] \<and> notificationId c = [] then 0 else 1)"
  by (simp add: dispatchCampaign_def Let_def send_all_effect recordCampaignEvent_def
      split: option.splits)

lemma dispatchCampaign_subscriptions:
  "subscriptions (dispatchCampaign P now c st) = prune P (recipients P now c st) (subscriptions st)"
  by (simp add: dispatchCampaign_def Let_def send_all_effect recipients_def
      recordCampaignEvent_def split: option.splits)

lemma dispatchCampaign_timers:
  "timers (dispatchCampaign P now c st) = timers st \<and>
   scheduledCampaigns (dispatchCampaign P now c st) = scheduledCampaigns st"
  by (simp add: dispatchCampaign_def Let_def send_all_effect
      recordCampaignEvent_def split: option.splits)

lemma findOne_updateOne:
  "findOne P xs = Some d \<Longrightarrow> P (f d) \<Longrightarrow> findOne P (updateOne P f xs) = Some (f d)"
  by (induction xs) (auto split: if_splits)


lemma sub_open_eligible: "eligible noon now FlashSales sub_open"
  by (simp add: eligible_def sub_open_def open_prefs_def isTemporarilyMuted_def
      isWithinQuietHours_def)

lemma recipients_open:
  "subscriptions st = [sub_open] \<Longrightarrow> category c = FlashSales \<Longrightarrow>
   recipients always_accepts now c st = [sub_open]"
  using sub_open_eligible[of now]
  by (simp add: recipients_def audience_of_def filterEligibleSubscriptions_def
      always_accepts_def)
    (simp add: sub_open_def open_prefs_def)

lemma recipients_shop:
  "subscriptions st = [sub_open] \<Longrightarrow> recipients always_accepts now sale_campaign st = [sub_open]"
  by (rule recipients_open) (simp_all add: sale_campaign_def)

lemma recipients_of_shop: "recipients always_accepts now sale_campaign shop = [sub_open]"
  by (rule recipients_shop) (simp add: shop_def)

lemma accepts: "webpush always_accepts s = Accepted"
  by (simp add: always_accepts_def)

lemma subscriptions_once: "subscriptions once = [sub_open]"
  unfolding once_def dispatchCampaign_subscriptions recipients_of_shop
  by (simp add: gone_def accepts) (simp add: shop_def)

lemma pushes_once: "pushes once = [push_call always_accepts sale_campaign sub_open]"
  unfolding once_def dispatchCampaign_pushes recipients_of_shop
  by (simp add: shop_def)

lemma pushes_twice:
  "pushes twice = [push_call always_accepts sale_campaign sub_open,
                   push_call always_accepts sale_campaign sub_open]"
  by (simp add: twice_def dispatchCampaign_pushes recipients_shop subscriptions_once pushes_once)

text \<open>
  Claim C3 as stated fails. A shop with one subscriber and one scheduled campaign: after
  the first dispatch the stored status is sent and one push was made; a second dispatch of
  the same campaign pushes to the subscriber again and records a second deliver event, so
  it is neither a no-op nor refused. (The stored \<open>successCount\<close> stays 1.)
\<close>

theorem second_dispatch_sends_again_counterexample:
  "map status (campaigns once) = [Some Sent] \<and>
   map successCount (campaigns once) = [Some 1] \<and>
   pushes once = [push_call always_accepts sale_campaign sub_open] \<and>
   pushes twice = [push_call always_accepts sale_campaign sub_open,
                   push_call always_accepts sale_campaign sub_open] \<and>
   length (campaignEvents once) = 1 \<and> length (campaignEvents twice) = 2 \<and>
   twice \<noteq> once"
proof -
  have o: "oid sale_campaign = Some ''c1''" by (simp add: sale_campaign_def)
  have c1: "campaigns once = [mark_sent 1000 1 1 sale_campaign]"
    unfolding once_def dispatchCampaign_campaigns recipients_of_shop
    by (simp add: o delivered_def accepts) (simp add: shop_def o)
  have e1: "length (campaignEvents once) = 1"
    by (simp add: once_def dispatchCampaign_events shop_def sale_campaign_def)
  have e2: "length (campaignEvents twice) = 2"
    by (simp add: twice_def dispatchCampaign_events e1 sale_campaign_def)
  have ne: "twice \<noteq> once"
  proof
    assume "twice = once"
    then have "pushes twice = pushes once" by simp
    then show False by (simp add: pushes_once pushes_twice)
  qed
  show ?thesis
    using c1 e1 e2 ne pushes_once pushes_twice by (simp add: mark_sent_def)
qed

text \<open>
  Claim C3, amended. A dispatch does not look at the status. Two dispatches of the same
  campaign make the pushes of the first, to every subscription eligible then, followed by
  those of the second, to every subscription eligible at that later time, and record one
  deliver event each (none when the campaign has neither a campaign id nor a notification
  id). When the campaign has a stored document, its status is sent after the first
  dispatch and stays sent after the second, and \<open>successCount\<close> and
  \<open>audienceCount\<close> hold the counts of the latest dispatch alone: they are overwritten,
  never added up.
\<close>

theorem dispatch_marks_sent_and_overwrites_counts:
  "pushes (dispatchCampaign P2 t2 c (dispatchCampaign P1 t1 c st)) =
     pushes st @ map (push_call P1 c) (recipients P1 t1 c st)
       @ map (push_call P2 c) (recipients P2 t2 c (dispatchCampaign P1 t1 c st)) \<and>
   length (campaignEvents (dispatchCampaign P2 t2 c (dispatchCampaign P1 t1 c st))) =
     length (campaignEvents st) + (if campaignId c = [] \<and> notificationId c = [] then 0 else 2) \<and>
   (oid c = Some i \<and> findOne (\<lambda>d. oid d = Some i) (campaigns st) = Some d \<longrightarrow>
      findOne (\<lambda>d. oid d = Some i) (campaigns (dispatchCampaign P1 t1 c st)) =
        Some (d\<lparr>status := Some Sent, sentAt := Some t1,
                successCount := Some (delivered P1 (recipients P1 t1 c st)),
                audienceCount := Some (length (recipients P1 t1 c st))\<rparr>) \<and>
      findOne (\<lambda>d. oid d = Some i)
          (campaigns (dispatchCampaign P2 t2 c (dispatchCampaign P1 t1 c st))) =
        Some (d\<lparr>status := Some Sent, sentAt := Some t2,
                successCount := Some (delivered P2 (recipients P2 t2 c (dispatchCampaign P1 t1 c st))),
                audienceCount := Some (length (recipients P2 t2 c (dispatchCampaign P1 t1 c st)))\<rparr>))"
proof -
  let ?s1 = "dispatchCampaign P1 t1 c st"
  have p: "pushes (dispatchCampaign P2 t2 c ?s1) =
     pushes st @ map (push_call P1 c) (recipients P1 t1 c st)
       @ map (push_call P2 c) (recipients P2 t2 c ?s1)"
    by (simp add: dispatchCampaign_pushes)
  have e: "length (campaignEvents (dispatchCampaign P2 t2 c ?s1)) =
     length (campaignEvents st) + (if campaignId c = [] \<and> notificationId c = [] then 0 else 2)"
    by (simp add: dispatchCampaign_events)
  have m: "findOne (\<lambda>d. oid d = Some i) (campaigns ?s1) =
        Some (d\<lparr>status := Some Sent, sentAt := Some t1,
                successCount := Some (delivered P1 (recipients P1 t1 c st)),
                audienceCount := Some (length (recipients P1 t1 c st))\<rparr>) \<and>
      findOne (\<lambda>d. oid d = Some i) (campaigns (dispatchCampaign P2 t2 c ?s1)) =
        Some (d\<lparr>status := Some Sent, sentAt := Some t2,
                successCount := Some (delivered P2 (recipients P2 t2 c ?s1)),
                audienceCount := Some (length (recipients P2 t2 c ?s1))\<rparr>)"
    if h: "oid c = Some i \<and> findOne (\<lambda>d. oid d = Some i) (campaigns st) = Some d"
  proof -
    have od: "oid d = Some i"
    proof -
      have "findOne Q xs = Some y \<Longrightarrow> Q y" for Q :: "Campaign \<Rightarrow> bool" and xs y
        by (induction xs) (auto split: if_splits)
      from this[of "\<lambda>d. oid d = Some i" "campaigns st" d] h show ?thesis by simp
    qed
    have 1: "findOne (\<lambda>d. oid d = Some i) (campaigns ?s1) =
        Some (mark_sent t1 (delivered P1 (recipients P1 t1 c st)) (length (recipients P1 t1 c st)) d)"
      using h od by (simp add: dispatchCampaign_campaigns findOne_updateOne mark_sent_def)
    have 2: "findOne (\<lambda>d. oid d = Some i) (campaigns (dispatchCampaign P2 t2 c ?s1)) =
        Some (mark_sent t2 (delivered P2 (recipients P2 t2 c ?s1)) (length (recipients P2 t2 c ?s1))
          (mark_sent t1 (delivered P1 (recipients P1 t1 c st)) (length (recipients P1 t1 c st)) d))"
      using h od findOne_updateOne[OF 1, of "mark_sent t2 (delivered P2 (recipients P2 t2 c ?s1)) (length (recipients P2 t2 c ?s1))"]
      by (simp add: dispatchCampaign_campaigns[of P2] mark_sent_def)
    show ?thesis using 1 2 by (simp add: mark_sent_def)
  qed
  show ?thesis using p e m by blast
qed


text \<open>
  The scheduled campaign of the shop, dispatched at times 1000 and 2000.
\<close>

theorem dispatch_twice_witness:
  "oid sale_campaign = Some ''c1'' \<and>
   findOne (\<lambda>d. oid d = Some ''c1'') (campaigns shop) = Some sale_campaign \<and>
   findOne (\<lambda>d. oid d = Some ''c1'') (campaigns once) =
     Some (sale_campaign\<lparr>status := Some Sent, sentAt := Some 1000, successCount := Some 1,
                          audienceCount := Some 1\<rparr>) \<and>
   findOne (\<lambda>d. oid d = Some ''c1'') (campaigns twice) =
     Some (sale_campaign\<lparr>status := Some Sent, sentAt := Some 2000, successCount := Some 1,
                          audienceCount := Some 1\<rparr>) \<and>
   length (pushes twice) = 2"
proof -
  have o: "oid sale_campaign = Some ''c1''" by (simp add: sale_campaign_def)
  have f: "findOne (\<lambda>d. oid d = Some ''c1'') (campaigns shop) = Some sale_campaign"
    by (simp add: shop_def o)
  have r1: "recipients always_accepts 1000 sale_campaign shop = [sub_open]"
    by (rule recipients_of_shop)
  have r2: "recipients always_accepts 2000 sale_campaign once = [sub_open]"
    by (rule recipients_shop) (rule subscriptions_once)
  have d: "delivered always_accepts [sub_open] = 1"
    by (simp add: delivered_def accepts)
  have p0: "pushes shop = []" by (simp add: shop_def)
  from dispatch_marks_sent_and_overwrites_counts[of always_accepts 2000 sale_campaign
      always_accepts 1000 shop "''c1''" sale_campaign] o f
  show ?thesis
    unfolding once_def[symmetric] twice_def[symmetric] r1 r2 d p0
    by simp
qed

text \<open>
  Scheduling and rehydration within the range of \<open>setTimeout\<close>: a campaign whose
  \<open>sendAt\<close> lies in the future by at most \<open>TIMEOUT_MAX\<close> milliseconds gets a timer
  that is due at \<open>sendAt\<close>.
\<close>

lemma schedule_in_range:
  assumes "sendAt c = Some t" "now < t" "t - now \<le> TIMEOUT_MAX"
  shows "scheduleCampaignDispatch P now c st =
     st\<lparr>timers := timers st @ [\<lparr>due = t, job = c\<rparr>],
        scheduledCampaigns := map_set (id_string c) \<lparr>due = t, job = c\<rparr> (scheduledCampaigns st)\<rparr>"
  using assms by (simp add: scheduleCampaignDispatch_def arm_def timeout_after_def Let_def)

lemma schedule_timers_grow:
  "set (timers st) \<subseteq> set (timers (scheduleCampaignDispatch P now c st))"
  by (auto simp: scheduleCampaignDispatch_def arm_def Let_def dispatchCampaign_timers
      split: option.splits)

lemma fold_schedule_timers_grow:
  "set (timers st) \<subseteq> set (timers (fold (scheduleCampaignDispatch P now) cs st))"
proof (induction cs arbitrary: st)
  case Nil
  then show ?case by simp
next
  case (Cons c cs)
  show ?case using schedule_timers_grow[of st P now c] Cons.IH[of "scheduleCampaignDispatch P now c st"]
    by auto
qed

lemma fold_schedule_arms:
  assumes "c \<in> set cs" "sendAt c = Some t" "now < t" "t - now \<le> TIMEOUT_MAX"
  shows "\<lparr>due = t, job = c\<rparr> \<in> set (timers (fold (scheduleCampaignDispatch P now) cs st))"
  using assms(1)
proof (induction cs arbitrary: st)
  case Nil
  then show ?case by simp
next
  case (Cons x cs)
  show ?case
  proof (cases "x = c")
    case True
    have "\<lparr>due = t, job = c\<rparr> \<in> set (timers (scheduleCampaignDispatch P now c st))"
      by (simp add: schedule_in_range[OF assms(2-4)])
    then show ?thesis
      using True fold_schedule_timers_grow[of "scheduleCampaignDispatch P now c st" P now cs]
      by auto
  next
    case False
    then show ?thesis using Cons by simp
  qed
qed

lemma rehydration_in_range:
  assumes "c \<in> set (campaigns st)" "status c = Some Scheduled" "sendAt c = Some t"
    "now < t" "t - now \<le> TIMEOUT_MAX"
  shows "\<lparr>due = t, job = c\<rparr> \<in> set (timers (bootstrapCampaignScheduler P now st))"
proof -
  have "c \<in> set (upcoming now st)" using assms by (simp add: upcoming_def)
  then show ?thesis
    unfolding bootstrapCampaignScheduler_def
    by (rule fold_schedule_arms[OF _ assms(3-5)])
qed

text \<open>
  Claim C8 on a campaign that is scheduled thirty days ahead. When the process starts at
  time 0 the campaign is found (status scheduled, \<open>sendAt\<close> in the future), but the
  delay 2592000000 exceeds \<open>TIMEOUT_MAX\<close>, so the timer armed for it is due at time 1,
  not at \<open>sendAt\<close>: one millisecond after the start the campaign is pushed to the
  subscriber and marked sent.
\<close>

theorem rehydration_far_future_fires_at_once:
  "campaigns restarted = [far_campaign] \<and>
   status far_campaign = Some Scheduled \<and> sendAt far_campaign = Some 2592000000 \<and>
   timers (bootstrapCampaignScheduler always_accepts 0 restarted) = [\<lparr>due = 1, job = far_campaign\<rparr>] \<and>
   pushes (bootstrapCampaignScheduler always_accepts 0 restarted) = [] \<and>
   pushes (advance_to always_accepts 1 (bootstrapCampaignScheduler always_accepts 0 restarted)) =
     [push_call always_accepts far_campaign sub_open] \<and>
   map status (campaigns (advance_to always_accepts 1 (bootstrapCampaignScheduler always_accepts 0 restarted))) =
     [Some Sent]"
proof -
  have f: "status far_campaign = Some Scheduled" "sendAt far_campaign = Some 2592000000"
    "oid far_campaign = Some ''c2''" "category far_campaign = FlashSales"
    "campaignId far_campaign = ''spring''"
    by (simp_all add: far_campaign_def sale_campaign_def)
  have u: "upcoming 0 restarted = [far_campaign]"
    by (simp add: upcoming_def restarted_def f)
  have b: "bootstrapCampaignScheduler always_accepts 0 restarted =
      restarted\<lparr>timers := [\<lparr>due = 1, job = far_campaign\<rparr>],
                scheduledCampaigns := [(''c2'', \<lparr>due = 1, job = far_campaign\<rparr>)]\<rparr>"
    by (simp add: bootstrapCampaignScheduler_def u scheduleCampaignDispatch_def f arm_def
        timeout_after_def TIMEOUT_MAX_def id_string_def Let_def)
      (simp add: restarted_def)
  let ?b = "restarted\<lparr>timers := [\<lparr>due = 1, job = far_campaign\<rparr>],
                scheduledCampaigns := [(''c2'', \<lparr>due = 1, job = far_campaign\<rparr>)]\<rparr>"
  have a: "advance_to always_accepts 1 ?b =
      timeout_callback always_accepts 1 far_campaign (?b\<lparr>timers := []\<rparr>)"
    by (simp add: advance_to_def)
  have p: "pushes (advance_to always_accepts 1 ?b) = [push_call always_accepts far_campaign sub_open]"
    unfolding a timeout_callback_def Let_def
    by (simp add: dispatchCampaign_pushes recipients_open f restarted_def)
  have c: "campaigns (advance_to always_accepts 1 ?b) = [mark_sent 1 1 1 far_campaign]"
    unfolding a timeout_callback_def Let_def
    by (simp add: dispatchCampaign_campaigns recipients_open f delivered_def accepts restarted_def)
  show ?thesis
    unfolding b using f p c by (simp add: mark_sent_def) (simp add: restarted_def)
qed

section \<open>Properties of the order endpoint\<close>











end
